theory Spec2Isabelle
  imports Main "HOL-Library.Char_ord" "HOL-Library.List_Lexorder"
    "HOL-Library.Product_Lexorder" "HOL-Library.Multiset"
begin

section \<open>Python strings\<close>

text \<open>
  A Python \<open>str\<close> is modelled as a \<open>string\<close> (a list of characters with code points
  below 256); file contents are the decoded text, after the translation of line ends that
  text mode does. The functions of this section are the methods of \<open>str\<close> that
  \<^verbatim>\<open>prompt-merge.py\<close> calls.
\<close>

definition LF :: char where
  "LF = CHR 0x0A"

text \<open>\<^verbatim>\<open>c.isspace()\<close> for the code points below 256.\<close>

definition isspace :: "char \<Rightarrow> bool" where
  "isspace c =
     (let n = (of_char c :: nat)
      in (9 \<le> n \<and> n \<le> 13) \<or> (28 \<le> n \<and> n \<le> 32) \<or> n = 133 \<or> n = 160)"

text \<open>\<^verbatim>\<open>s.strip()\<close>: white space removed at both ends.\<close>

definition strip :: "string \<Rightarrow> string" where
  "strip s = rev (dropWhile isspace (rev (dropWhile isspace s)))"

text \<open>\<^verbatim>\<open>s.startswith(p)\<close>.\<close>

definition startswith :: "string \<Rightarrow> string \<Rightarrow> bool" where
  "startswith s p = (take (length p) s = p)"

text \<open>\<^verbatim>\<open>s.split("\n")\<close>: the pieces between line feeds; never the empty list.\<close>

fun split_nl :: "string \<Rightarrow> string list" where
  "split_nl [] = [[]]"
| "split_nl (c # cs) =
     (if c = LF then [] # split_nl cs
      else (case split_nl cs of [] \<Rightarrow> [[c]] | l # ls \<Rightarrow> (c # l) # ls))"

text \<open>\<^verbatim>\<open>"\n".join(ls)\<close>.\<close>

fun join_nl :: "string list \<Rightarrow> string" where
  "join_nl [] = []"
| "join_nl [l] = l"
| "join_nl (l # ls) = l @ LF # join_nl ls"



section \<open>The merge engine: removing the extends annotation\<close>

text \<open>
  The loop of \<^verbatim>\<open>merge_templates\<close> over the lines of one template (source lines 170 to
  183). The first argument is the flag \<^verbatim>\<open>skip_next_empty\<close>, the result is
  \<^verbatim>\<open>filtered_lines\<close>. The third branch is the \<^verbatim>\<open>continue\<close> that leaves the flag set.
\<close>

fun filter_lines :: "bool \<Rightarrow> string list \<Rightarrow> string list" where
  "filter_lines skip_next_empty [] = []"
| "filter_lines skip_next_empty (line # lines) =
     (if startswith line ''> **Extends:**'' \<or> startswith line ''> This extension''
      then filter_lines True lines
      else if skip_next_empty \<and> strip line = [] then filter_lines False lines
      else if skip_next_empty \<and> startswith line ''>'' then filter_lines skip_next_empty lines
      else line # filter_lines False lines)"

text \<open>Source lines 169 to 185 and the \<^verbatim>\<open>content.strip()\<close> of line 193.\<close>

definition filtered_lines :: "string \<Rightarrow> string list" where
  "filtered_lines content = filter_lines False (split_nl content)"

definition filtered_content :: "string \<Rightarrow> string" where
  "filtered_content content = strip (join_nl (filtered_lines content))"

section \<open>Errors\<close>

text \<open>
  The exceptions that the modelled code can raise or let through. An uncaught exception
  ends the process with a nonzero status.
\<close>

datatype py_error = ZeroDivisionError | IndexError | OSError | TermiosError | KeyboardInterrupt

section \<open>The template index\<close>

text \<open>The dictionary that \<^verbatim>\<open>get_all_templates\<close> builds for one file. The field
  \<open>path\<close> holds the parts of the file's path below \<^verbatim>\<open>TEMPLATES_DIR\<close>.\<close>

record template =
  path :: "string list"
  rel_path :: string
  title :: string
  description :: string
  extends :: "string option"
  is_base :: bool

text \<open>
  The loop over \<^verbatim>\<open>lines[:10]\<close> (source lines 33 to 43), called on the lines already cut
  to ten. The triple holds the local variables \<^verbatim>\<open>title\<close>, \<^verbatim>\<open>description\<close> and
  \<^verbatim>\<open>extends\<close>; the third branch is the one that ends in \<^verbatim>\<open>break\<close>.
\<close>

fun scan_header :: "string list \<Rightarrow> string \<times> string \<times> string option \<Rightarrow> string \<times> string \<times> string option" where
  "scan_header [] (ttl, dsc, ext) = (ttl, dsc, ext)"
| "scan_header (raw # lines) (ttl, dsc, ext) =
     (let line = strip raw in
      if startswith line ''# '' then scan_header lines (strip (drop 2 line), dsc, ext)
      else if startswith line ''> **Extends:**'' then scan_header lines (ttl, dsc, Some line)
      else if line \<noteq> [] \<and> \<not> startswith line ''#'' \<and> \<not> startswith line ''>''
      then (ttl, (if length line > 80 then take 80 line @ ''...'' else take 80 line), ext)
      else scan_header lines (ttl, dsc, ext))"













section \<open>The merge engine: order and output\<close>





section \<open>The interactive selection\<close>

definition ESC :: char where
  "ESC = CHR 0x1B"

definition CR :: char where
  "CR = CHR 0x0D"

definition ETX :: char where
  "ETX = CHR 0x03"

text \<open>
  Standard input is the list of what the coming calls of \<^verbatim>\<open>sys.stdin.read(1)\<close> give:
  a character, or an exception. When the list is used up the next read never returns
  (a terminal waits for a key).
\<close>

datatype read_event = Byte char | Read_raises py_error

text \<open>\<^verbatim>\<open>(current + d) % len(templates)\<close>: Python's remainder has the sign of the
  divisor, as \<open>mod\<close> on \<open>int\<close> has, and raises on a zero divisor.\<close>

definition move :: "int \<Rightarrow> int \<Rightarrow> nat \<Rightarrow> py_error + int" where
  "move current d n = (if n = 0 then Inl ZeroDivisionError else Inr ((current + d) mod int n))"

text \<open>\<^verbatim>\<open>selected[current] = not selected[current]\<close>, with Python's indexing: a negative
  index counts from the end, an index out of range raises.\<close>

definition toggle :: "bool list \<Rightarrow> int \<Rightarrow> py_error + bool list" where
  "toggle selected current =
     (let n = int (length selected);
          j = (if current < 0 then current + n else current)
      in if 0 \<le> j \<and> j < n then Inr (selected[nat j := \<not> selected ! nat j]) else Inl IndexError)"

text \<open>
  One pass through the body of the \<^verbatim>\<open>while True\<close> loop after \<^verbatim>\<open>render()\<close> (source
  lines 115 to 137), with \<open>n = len(templates)\<close>: the pass goes on to the next one with a
  new cursor, new flags and the rest of the input, leaves the loop by \<^verbatim>\<open>break\<close>, returns
  the empty list, raises, or waits for input for ever.
\<close>

datatype step =
  Continue int "bool list" "read_event list" | Break | Return_empty | Raise py_error | Blocked

definition moved :: "int \<Rightarrow> int \<Rightarrow> nat \<Rightarrow> bool list \<Rightarrow> read_event list \<Rightarrow> step" where
  "moved current d n selected stdin =
     (case move current d n of Inl e \<Rightarrow> Raise e | Inr c \<Rightarrow> Continue c selected stdin)"

fun loop_body :: "nat \<Rightarrow> int \<Rightarrow> bool list \<Rightarrow> read_event list \<Rightarrow> step" where
  "loop_body n current selected [] = Blocked"
| "loop_body n current selected (Read_raises e # stdin) = Raise e"
| "loop_body n current selected (Byte ch # stdin) =
     (if ch = ESC then
        (case stdin of
           [] \<Rightarrow> Blocked
         | Read_raises e # _ \<Rightarrow> Raise e
         | Byte ch2 # stdin2 \<Rightarrow>
             if ch2 = CHR ''[''  then
               (case stdin2 of
                  [] \<Rightarrow> Blocked
                | Read_raises e # _ \<Rightarrow> Raise e
                | Byte ch3 # stdin3 \<Rightarrow>
                    if ch3 = CHR ''A'' then moved current (- 1) n selected stdin3
                    else if ch3 = CHR ''B'' then moved current 1 n selected stdin3
                    else Continue current selected stdin3)
             else Continue current selected stdin2)
      else if ch = CHR ''k'' then moved current (- 1) n selected stdin
      else if ch = CHR ''j'' then moved current 1 n selected stdin
      else if ch = CHR '' '' then
        (case toggle selected current of
           Inl e \<Rightarrow> Raise e
         | Inr selected' \<Rightarrow> Continue current selected' stdin)
      else if ch = CR \<or> ch = LF then Break
      else if ch = CHR ''q'' \<or> ch = ETX then Return_empty
      else Continue current selected stdin)"

lemma loop_body_shorter:
  "loop_body n current selected stdin = Continue c s stdin' \<Longrightarrow> length stdin' < length stdin"
  by (induction n current selected stdin rule: loop_body.induct)
    (auto simp: moved_def split: if_splits list.splits read_event.splits sum.splits)

text \<open>
  The \<^verbatim>\<open>while True\<close> loop. \<open>wr k\<close> says whether the \<open>k\<close>-th round of writes to the
  screen goes through (\<^verbatim>\<open>render()\<close>, and the notice of the cancel branch); a failed
  write raises. The screen's contents are not part of the model. The loop ends
  confirmed (with the flags, and the number of the next round of writes), cancelled, with
  an exception, or waits for ever at the given cursor and flags.
\<close>

datatype loop_exit =
  Confirmed nat "bool list" | Cancelled | Raised py_error | Waiting int "bool list"

function loop :: "(nat \<Rightarrow> bool) \<Rightarrow> nat \<Rightarrow> nat \<Rightarrow> int \<Rightarrow> bool list \<Rightarrow> read_event list \<Rightarrow> loop_exit" where
  "loop wr k n current selected stdin =
     (if \<not> wr k then Raised OSError
      else
        (case loop_body n current selected stdin of
           Continue current' selected' stdin' \<Rightarrow> loop wr (Suc k) n current' selected' stdin'
         | Break \<Rightarrow> Confirmed (Suc k) selected
         | Return_empty \<Rightarrow> if wr (Suc k) then Cancelled else Raised OSError
         | Raise e \<Rightarrow> Raised e
         | Blocked \<Rightarrow> Waiting current selected))"
  by pat_completeness auto
termination
  by (relation "measure (\<lambda>(wr, k, n, current, selected, stdin). length stdin)")
    (auto dest: loop_body_shorter)

declare loop.simps [simp del]

text \<open>
  The terminal is \<open>None\<close> when standard input is not a terminal (\<^verbatim>\<open>tcgetattr\<close> raises),
  otherwise its attributes. \<open>setraw\<close> is what \<^verbatim>\<open>tty.setraw\<close> makes of the attributes.
  \<open>loop_in_raw_mode\<close> is the body of the \<^verbatim>\<open>try\<close> block, \<open>tcsetattr\<close> the statement of
  the \<^verbatim>\<open>finally\<close> block, which runs however the body ends, if it ends.
\<close>

definition loop_in_raw_mode ::
  "('a \<Rightarrow> 'a) \<Rightarrow> (nat \<Rightarrow> bool) \<Rightarrow> template list \<Rightarrow> read_event list \<Rightarrow> 'a \<Rightarrow> loop_exit \<times> 'a" where
  "loop_in_raw_mode setraw wr templates stdin t =
     (loop wr 0 (length templates) 0 (replicate (length templates) False) stdin, setraw t)"

definition tcsetattr :: "'a \<Rightarrow> 'a \<Rightarrow> 'a" where
  "tcsetattr settings t = settings"

text \<open>\<^verbatim>\<open>[t for i, t in enumerate(templates) if selected[i]]\<close>; the flags are as many
  as the templates throughout.\<close>

definition chosen :: "template list \<Rightarrow> bool list \<Rightarrow> template list" where
  "chosen templates selected = map fst (filter snd (zip templates selected))"

text \<open>
  \<^verbatim>\<open>interactive_select\<close>: \<open>None\<close> when the call never returns, otherwise the list
  returned or the exception raised, with the terminal as the call leaves it.
\<close>

definition interactive_select ::
  "('a \<Rightarrow> 'a) \<Rightarrow> (nat \<Rightarrow> bool) \<Rightarrow> template list \<Rightarrow> read_event list \<Rightarrow> 'a option
     \<Rightarrow> ((py_error + template list) \<times> 'a option) option" where
  "interactive_select setraw wr templates stdin tty =
     (case tty of
        None \<Rightarrow> Some (Inl TermiosError, None)
      | Some old_settings \<Rightarrow>
          (case loop_in_raw_mode setraw wr templates stdin old_settings of
             (Waiting c s, t) \<Rightarrow> None
           | (Raised e, t) \<Rightarrow> Some (Inl e, Some (tcsetattr old_settings t))
           | (Cancelled, t) \<Rightarrow> Some (Inr [], Some (tcsetattr old_settings t))
           | (Confirmed k selected, t) \<Rightarrow>
               if wr k then Some (Inr (chosen templates selected), Some (tcsetattr old_settings t))
               else Some (Inl OSError, Some (tcsetattr old_settings t))))"

section \<open>The command line\<close>





section \<open>Key events\<close>

text \<open>
  A key event is the list of bytes that one pass of the loop reads for it. The
  predicates below name the events that the branches of the loop tell apart: the two
  moves (arrow or letter), the space bar, Enter, the quit key or interrupt, and the
  events that no branch acts on (any other byte, and an escape sequence that is not one
  of the two arrows).
\<close>

definition up_key :: "char list \<Rightarrow> bool" where
  "up_key b = (b = [ESC, CHR ''['', CHR ''A''] \<or> b = ''k'')"

definition down_key :: "char list \<Rightarrow> bool" where
  "down_key b = (b = [ESC, CHR ''['', CHR ''B''] \<or> b = ''j'')"

definition space_key :: "char list \<Rightarrow> bool" where
  "space_key b = (b = '' '')"



fun ignored_key :: "char list \<Rightarrow> bool" where
  "ignored_key [c] = (c \<notin> {ESC, CHR ''k'', CHR ''j'', CHR '' '', CR, LF, CHR ''q'', ETX})"
| "ignored_key [c, c2] = (c = ESC \<and> c2 \<noteq> CHR ''['')"
| "ignored_key [c, c2, c3] = (c = ESC \<and> c2 = CHR ''['' \<and> c3 \<noteq> CHR ''A'' \<and> c3 \<noteq> CHR ''B'')"
| "ignored_key b = False"


section \<open>Properties of the extends filter\<close>

lemma filter_lines_no_marker:
  "\<forall>line \<in> set lines. \<not> startswith line ''> **Extends:**'' \<and> \<not> startswith line ''> This extension''
   \<Longrightarrow> filter_lines False lines = lines"
  by (induction lines) simp_all

text \<open>
  Claim C5. The content made of the four lines \<^verbatim>\<open>> **Extends:** base.md\<close>,
  \<^verbatim>\<open>> This extension adds X.\<close>, an empty line and \<^verbatim>\<open>Body text\<close> is filtered, and
  then trimmed, to exactly \<^verbatim>\<open>Body text\<close>.
\<close>

theorem filter_extends_block_example:
  "filtered_content
     (''> **Extends:** base.md'' @ [LF] @ ''> This extension adds X.'' @ [LF] @ [LF] @ ''Body text'')
   = ''Body text''"
  by (simp add: filtered_content_def filtered_lines_def startswith_def strip_def isspace_def LF_def)

text \<open>
  Claim C10. On a content in which no line starts with \<^verbatim>\<open>> **Extends:**\<close> and no line
  starts with \<^verbatim>\<open>> This extension\<close>, the filter is the identity: the filtered lines are
  the lines of the content (before the final trim).
\<close>

theorem filter_identity_without_annotation:
  assumes "\<forall>line \<in> set (split_nl content).
             \<not> startswith line ''> **Extends:**'' \<and> \<not> startswith line ''> This extension''"
  shows "filtered_lines content = split_nl content"
  unfolding filtered_lines_def using assms by (rule filter_lines_no_marker)

theorem filter_identity_without_annotation_witness:
  "filtered_lines (''# Title'' @ [LF] @ ''> a quote'' @ [LF] @ [LF] @ ''Body'')
   = [''# Title'', ''> a quote'', '''', ''Body'']"
  using filter_identity_without_annotation
    [of "''# Title'' @ [LF] @ ''> a quote'' @ [LF] @ [LF] @ ''Body''"]
  by (simp add: startswith_def LF_def)

section \<open>Properties of the template index\<close>










text \<open>A line of 81 characters is cut to 80 and gets the ellipsis.\<close>

lemma description_truncated_example:
  "scan_header [replicate 81 (CHR ''x'') @ [LF]] (''t'', [], None)
   = (''t'', replicate 80 (CHR ''x'') @ ''...'', None)"
proof -
  have s: "strip (replicate 81 (CHR ''x'') @ [LF]) = replicate 81 (CHR ''x'')"
    by (simp add: strip_def isspace_def LF_def dropWhile_append3)
  have n: "replicate 81 (CHR ''x'') = CHR ''x'' # CHR ''x'' # replicate 79 (CHR ''x'')"
    by (simp add: numeral_eq_Suc)
  have p: "\<not> startswith (replicate 81 (CHR ''x'')) ''# ''"
    "\<not> startswith (replicate 81 (CHR ''x'')) ''> **Extends:**''"
    "\<not> startswith (replicate 81 (CHR ''x'')) ''#''"
    "\<not> startswith (replicate 81 (CHR ''x'')) ''>''"
    unfolding n by (simp_all add: startswith_def)
  have e: "replicate 81 (CHR ''x'') \<noteq> []"
    by simp
  show ?thesis
    by (simp add: s p e Let_def)
qed




section \<open>Properties of the merge order\<close>






section \<open>Properties of the interactive selection\<close>

lemma loop_no_input:
  "loop (\<lambda>k. True) k n c sel [] = Waiting c sel"
  by (simp add: loop.simps)

lemma loop_body_down:
  "down_key b \<Longrightarrow> loop_body n c sel (map Byte b @ rest) = moved c 1 n sel rest"
  by (auto simp: down_key_def ESC_def)

lemma loop_body_up:
  "up_key b \<Longrightarrow> loop_body n c sel (map Byte b @ rest) = moved c (- 1) n sel rest"
  by (auto simp: up_key_def ESC_def)

lemma loop_body_space:
  "space_key b \<Longrightarrow> loop_body n c sel (map Byte b @ rest) =
     (case toggle sel c of Inl e \<Rightarrow> Raise e | Inr sel' \<Rightarrow> Continue c sel' rest)"
  by (auto simp: space_key_def ESC_def)

lemma loop_body_ignored:
  "ignored_key b \<Longrightarrow> loop_body n c sel (map Byte b @ rest) = Continue c sel rest"
  by (induction b rule: ignored_key.induct) (auto simp: ESC_def)



lemma moved_pos:
  "0 < n \<Longrightarrow> moved c d n sel rest = Continue ((c + d) mod int n) sel rest"
  by (simp add: moved_def move_def)

lemma toggle_valid:
  "0 \<le> c \<Longrightarrow> c < int (length sel) \<Longrightarrow> toggle sel c = Inr (sel[nat c := \<not> sel ! nat c])"
  by (simp add: toggle_def Let_def)

lemma loop_continue:
  "loop_body n c sel stdin = Continue c' sel' stdin' \<Longrightarrow>
   loop (\<lambda>k. True) k n c sel stdin = loop (\<lambda>k. True) (Suc k) n c' sel' stdin'"
  by (subst loop.simps) simp




lemma down_keys_run:
  assumes "0 < n"
  shows "\<forall>b \<in> set ks. down_key b \<Longrightarrow> 0 \<le> c \<Longrightarrow> c < int n \<Longrightarrow>
     loop (\<lambda>k. True) k n c sel (map Byte (concat ks) @ rest)
       = loop (\<lambda>k. True) (k + length ks) n ((c + int (length ks)) mod int n) sel rest"
proof (induction ks arbitrary: c k)
  case Nil
  then show ?case by simp
next
  case (Cons b ks)
  let ?c1 = "(c + 1) mod int n"
  have "loop_body n c sel (map Byte b @ (map Byte (concat ks) @ rest))
      = Continue ?c1 sel (map Byte (concat ks) @ rest)"
    using Cons.prems assms by (simp add: loop_body_down moved_pos)
  from loop_continue [OF this, of k]
  have s1: "loop (\<lambda>k. True) k n c sel (map Byte (concat (b # ks)) @ rest)
      = loop (\<lambda>k. True) (Suc k) n ?c1 sel (map Byte (concat ks) @ rest)"
    by simp
  have s2: "loop (\<lambda>k. True) (Suc k) n ?c1 sel (map Byte (concat ks) @ rest)
      = loop (\<lambda>k. True) (Suc k + length ks) n ((?c1 + int (length ks)) mod int n) sel rest"
    using Cons.prems assms by (intro Cons.IH) simp_all
  have l: "c + int (length (b # ks)) = c + 1 + int (length ks)"
    by simp
  have e: "(?c1 + int (length ks)) mod int n = (c + int (length (b # ks))) mod int n"
    unfolding l by (rule mod_add_left_eq)
  show ?case
    unfolding s1 s2 e by simp
qed

lemma up_keys_run:
  assumes "0 < n"
  shows "\<forall>b \<in> set ks. up_key b \<Longrightarrow> 0 \<le> c \<Longrightarrow> c < int n \<Longrightarrow>
     loop (\<lambda>k. True) k n c sel (map Byte (concat ks) @ rest)
       = loop (\<lambda>k. True) (k + length ks) n ((c - int (length ks)) mod int n) sel rest"
proof (induction ks arbitrary: c k)
  case Nil
  then show ?case by simp
next
  case (Cons b ks)
  let ?c1 = "(c + (- 1)) mod int n"
  have "loop_body n c sel (map Byte b @ (map Byte (concat ks) @ rest))
      = Continue ?c1 sel (map Byte (concat ks) @ rest)"
    using Cons.prems assms by (simp add: loop_body_up moved_pos)
  from loop_continue [OF this, of k]
  have s1: "loop (\<lambda>k. True) k n c sel (map Byte (concat (b # ks)) @ rest)
      = loop (\<lambda>k. True) (Suc k) n ?c1 sel (map Byte (concat ks) @ rest)"
    by simp
  have s2: "loop (\<lambda>k. True) (Suc k) n ?c1 sel (map Byte (concat ks) @ rest)
      = loop (\<lambda>k. True) (Suc k + length ks) n ((?c1 - int (length ks)) mod int n) sel rest"
    using Cons.prems assms by (intro Cons.IH) simp_all
  have l: "c - int (length (b # ks)) = c + (- 1) - int (length ks)"
    by simp
  have e: "(?c1 - int (length ks)) mod int n = (c - int (length (b # ks))) mod int n"
    unfolding l by (rule mod_diff_left_eq)
  show ?case
    unfolding s1 s2 e by simp
qed

text \<open>
  Claim C3. With \<open>n \<ge> 1\<close> items and the cursor at \<open>c\<close>, \<open>0 \<le> c < n\<close>, a down move
  (arrow or \<^verbatim>\<open>j\<close>) sets the cursor to \<open>(c + 1) mod n\<close> and an up move (arrow or \<^verbatim>\<open>k\<close>)
  sets it to \<open>(c - 1 + n) mod n\<close>; after \<open>n\<close> down moves in a row, or \<open>n\<close> up moves in a
  row, the loop waits for the next key with the cursor back at \<open>c\<close>.
\<close>

theorem cursor_moves_cyclic:
  assumes "1 \<le> n" and "0 \<le> c" and "c < int n"
  shows "(down_key b \<longrightarrow>
            loop_body n c sel (map Byte b @ rest) = Continue ((c + 1) mod int n) sel rest)
    \<and> (up_key b \<longrightarrow>
            loop_body n c sel (map Byte b @ rest) = Continue ((c - 1 + int n) mod int n) sel rest)
    \<and> (length ks = n \<and> (\<forall>b \<in> set ks. down_key b) \<longrightarrow>
            loop (\<lambda>k. True) k n c sel (map Byte (concat ks)) = Waiting c sel)
    \<and> (length ks = n \<and> (\<forall>b \<in> set ks. up_key b) \<longrightarrow>
            loop (\<lambda>k. True) k n c sel (map Byte (concat ks)) = Waiting c sel)"
proof (intro conjI impI)
  assume "down_key b"
  with assms show "loop_body n c sel (map Byte b @ rest) = Continue ((c + 1) mod int n) sel rest"
    by (simp add: loop_body_down moved_pos)
next
  assume "up_key b"
  with assms show "loop_body n c sel (map Byte b @ rest) = Continue ((c - 1 + int n) mod int n) sel rest"
    by (simp add: loop_body_up moved_pos)
next
  assume a: "length ks = n \<and> (\<forall>b \<in> set ks. down_key b)"
  with assms have "loop (\<lambda>k. True) k n c sel (map Byte (concat ks) @ [])
      = loop (\<lambda>k. True) (k + length ks) n ((c + int (length ks)) mod int n) sel []"
    by (intro down_keys_run) simp_all
  with a assms show "loop (\<lambda>k. True) k n c sel (map Byte (concat ks)) = Waiting c sel"
    by (simp add: loop_no_input)
next
  assume a: "length ks = n \<and> (\<forall>b \<in> set ks. up_key b)"
  with assms have "loop (\<lambda>k. True) k n c sel (map Byte (concat ks) @ [])
      = loop (\<lambda>k. True) (k + length ks) n ((c - int (length ks)) mod int n) sel []"
    by (intro up_keys_run) simp_all
  with a assms show "loop (\<lambda>k. True) k n c sel (map Byte (concat ks)) = Waiting c sel"
    by (simp add: loop_no_input)
qed

theorem cursor_moves_cyclic_witness:
  "loop_body 3 2 [False, True, False] (map Byte ''j'' @ [Byte CR]) = Continue 0 [False, True, False] [Byte CR]
   \<and> loop_body 3 0 [False, True, False] (map Byte [ESC, CHR ''['', CHR ''A''] @ [Byte CR])
       = Continue 2 [False, True, False] [Byte CR]
   \<and> loop (\<lambda>k. True) 0 3 1 [False, True, False]
       (map Byte (concat [''j'', [ESC, CHR ''['', CHR ''B''], ''j''])) = Waiting 1 [False, True, False]
   \<and> loop (\<lambda>k. True) 0 3 1 [False, True, False]
       (map Byte (concat [''k'', [ESC, CHR ''['', CHR ''A''], ''k''])) = Waiting 1 [False, True, False]"
  using cursor_moves_cyclic [where n = 3 and c = 2 and b = "''j''" and sel = "[False, True, False]"
        and rest = "[Byte CR]"]
    cursor_moves_cyclic [where n = 3 and c = 0 and b = "[ESC, CHR ''['', CHR ''A'']"
        and sel = "[False, True, False]" and rest = "[Byte CR]"]
    cursor_moves_cyclic [where n = 3 and c = 1 and ks = "[''j'', [ESC, CHR ''['', CHR ''B''], ''j'']"
        and k = 0 and sel = "[False, True, False]"]
    cursor_moves_cyclic [where n = 3 and c = 1 and ks = "[''k'', [ESC, CHR ''['', CHR ''A''], ''k'']"
        and k = 0 and sel = "[False, True, False]"]
  by (simp add: down_key_def up_key_def)

text \<open>
  Claim C9. One key event changes at most one component of the selection state. A move
  (arrow, \<^verbatim>\<open>j\<close> or \<^verbatim>\<open>k\<close>) leaves every flag as it is and gives a cursor within range
  (with no item at all it raises instead, and nothing is changed). The space bar, with
  the cursor at a valid index, leaves the cursor where it is and negates the flag at that
  index and no other. An event that no branch acts on leaves cursor and flags as they
  are.
\<close>

theorem key_event_frame:
  "(up_key b \<or> down_key b \<longrightarrow>
      (if n = 0 then loop_body n c sel (map Byte b @ rest) = Raise ZeroDivisionError
       else \<exists>c'. 0 \<le> c' \<and> c' < int n \<and> loop_body n c sel (map Byte b @ rest) = Continue c' sel rest))
   \<and> (space_key b \<and> 0 \<le> c \<and> c < int (length sel) \<longrightarrow>
      (\<exists>sel'. loop_body n c sel (map Byte b @ rest) = Continue c sel' rest
         \<and> length sel' = length sel \<and> sel' ! nat c = (\<not> sel ! nat c)
         \<and> (\<forall>i. i \<noteq> nat c \<longrightarrow> sel' ! i = sel ! i)))
   \<and> (ignored_key b \<longrightarrow> loop_body n c sel (map Byte b @ rest) = Continue c sel rest)"
proof (intro conjI impI)
  assume m: "up_key b \<or> down_key b"
  show "if n = 0 then loop_body n c sel (map Byte b @ rest) = Raise ZeroDivisionError
       else \<exists>c'. 0 \<le> c' \<and> c' < int n \<and> loop_body n c sel (map Byte b @ rest) = Continue c' sel rest"
  proof (cases "n = 0")
    case True
    with m show ?thesis
      by (auto simp: loop_body_up loop_body_down moved_def move_def)
  next
    case False
    then have "0 < n"
      by simp
    with m have "loop_body n c sel (map Byte b @ rest) = Continue ((c + (- 1)) mod int n) sel rest
        \<or> loop_body n c sel (map Byte b @ rest) = Continue ((c + 1) mod int n) sel rest"
      by (auto simp: loop_body_up loop_body_down moved_pos)
    moreover have "0 \<le> (c + d) mod int n \<and> (c + d) mod int n < int n" for d
      using \<open>0 < n\<close> by simp
    ultimately show ?thesis
      using False by auto
  qed
next
  assume s: "space_key b \<and> 0 \<le> c \<and> c < int (length sel)"
  then have "loop_body n c sel (map Byte b @ rest) = Continue c (sel[nat c := \<not> sel ! nat c]) rest"
    by (simp add: loop_body_space toggle_valid)
  moreover have "nat c < length sel"
    using s by linarith
  ultimately show "\<exists>sel'. loop_body n c sel (map Byte b @ rest) = Continue c sel' rest
         \<and> length sel' = length sel \<and> sel' ! nat c = (\<not> sel ! nat c)
         \<and> (\<forall>i. i \<noteq> nat c \<longrightarrow> sel' ! i = sel ! i)"
    by (intro exI [of _ "sel[nat c := \<not> sel ! nat c]"]) simp
next
  assume "ignored_key b"
  then show "loop_body n c sel (map Byte b @ rest) = Continue c sel rest"
    by (rule loop_body_ignored)
qed

theorem key_event_frame_witness:
  "loop_body 3 2 [False, True, False] (map Byte ''j'' @ [Byte CR]) = Continue 0 [False, True, False] [Byte CR]
   \<and> loop_body 3 1 [False, True, False] (map Byte '' '' @ [Byte CR]) = Continue 1 [False, False, False] [Byte CR]
   \<and> loop_body 3 1 [False, True, False] (map Byte ''x'' @ [Byte CR]) = Continue 1 [False, True, False] [Byte CR]
   \<and> loop_body 0 0 [] (map Byte ''k'' @ [Byte CR]) = Raise ZeroDivisionError"
proof -
  have "loop_body 3 1 [False, True, False] (map Byte ''x'' @ [Byte CR]) = Continue 1 [False, True, False] [Byte CR]"
    using key_event_frame [where b = "''x''" and n = 3 and c = 1 and sel = "[False, True, False]"
        and rest = "[Byte CR]"]
    by (simp add: ESC_def CR_def LF_def ETX_def)
  moreover have "loop_body 0 0 [] (map Byte ''k'' @ [Byte CR]) = Raise ZeroDivisionError"
    using key_event_frame [where b = "''k''" and n = 0 and c = 0 and sel = "[]" and rest = "[Byte CR]"]
    by (simp add: up_key_def)
  moreover have "loop_body 3 2 [False, True, False] (map Byte ''j'' @ [Byte CR]) = Continue 0 [False, True, False] [Byte CR]"
    using key_event_frame [where b = "''j''" and n = 3 and c = 2 and sel = "[False, True, False]"
        and rest = "[Byte CR]"]
    by (simp add: down_key_def ESC_def moved_def move_def)
  moreover have "loop_body 3 1 [False, True, False] (map Byte '' '' @ [Byte CR]) = Continue 1 [False, False, False] [Byte CR]"
    using key_event_frame [where b = "'' ''" and n = 3 and c = 1 and sel = "[False, True, False]"
        and rest = "[Byte CR]"]
    by (simp add: space_key_def ESC_def toggle_def)
  ultimately show ?thesis
    by (intro conjI)
qed









text \<open>
  Claim C6. However the call of \<^verbatim>\<open>interactive_select\<close> ends (Enter, the quit key or
  interrupt, an exception of a read or of a write to the screen, or of the cursor
  arithmetic), the terminal has, when the call returns or lets the exception through, the
  attributes it had when the call began: those that \<^verbatim>\<open>tcgetattr\<close> captured.
\<close>

theorem terminal_restored_on_exit:
  assumes "interactive_select setraw wr templates stdin tty = Some (r, tty')"
  shows "tty' = tty"
  using assms
  by (auto simp: interactive_select_def loop_in_raw_mode_def tcsetattr_def
      split: option.splits loop_exit.splits if_splits)

theorem terminal_restored_on_exit_witness:
  "interactive_select (\<lambda>t. t + 1) (\<lambda>k. True) []
     [Byte (CHR '' ''), Read_raises KeyboardInterrupt] (Some (5::nat)) = Some (Inl IndexError, Some 5)
   \<and> interactive_select (\<lambda>t. t + 1) (\<lambda>k. True) [] [Byte (CHR ''x''), Read_raises KeyboardInterrupt]
        (Some (5::nat)) = Some (Inl KeyboardInterrupt, Some 5)
   \<and> interactive_select (\<lambda>t. t + 1) (\<lambda>k. k < 1) [] [Byte (CHR ''x''), Byte CR]
        (Some (5::nat)) = Some (Inl OSError, Some 5)"
proof -
  have a: "interactive_select (\<lambda>t. t + 1) (\<lambda>k. True) []
     [Byte (CHR '' ''), Read_raises KeyboardInterrupt] (Some (5::nat)) = Some (Inl IndexError, Some 5)"
    by (simp add: interactive_select_def loop_in_raw_mode_def tcsetattr_def loop.simps
        toggle_def ESC_def)
  have "\<exists>t. interactive_select (\<lambda>t. t + 1) (\<lambda>k. True) [] [Byte (CHR ''x''), Read_raises KeyboardInterrupt]
        (Some (5::nat)) = Some (Inl KeyboardInterrupt, t)"
    by (simp add: interactive_select_def loop_in_raw_mode_def loop.simps
        ESC_def CR_def LF_def ETX_def)
  then obtain t where b: "interactive_select (\<lambda>t. t + 1) (\<lambda>k. True) []
        [Byte (CHR ''x''), Read_raises KeyboardInterrupt] (Some (5::nat)) = Some (Inl KeyboardInterrupt, t)"
    by blast
  from terminal_restored_on_exit [OF b] b
  have b': "interactive_select (\<lambda>t. t + 1) (\<lambda>k. True) []
        [Byte (CHR ''x''), Read_raises KeyboardInterrupt] (Some (5::nat)) = Some (Inl KeyboardInterrupt, Some 5)"
    by simp
  have c: "interactive_select (\<lambda>t. t + 1) (\<lambda>k. k < 1) [] [Byte (CHR ''x''), Byte CR]
        (Some (5::nat)) = Some (Inl OSError, Some 5)"
    by (simp add: interactive_select_def loop_in_raw_mode_def tcsetattr_def loop.simps
        ESC_def CR_def LF_def ETX_def)
  from a b' c show ?thesis
    by (intro conjI)
qed

end
